theory Spec2Isabelle
  imports Main "HOL-Library.Char_ord" "HOL-Library.List_Lexorder" "HOL-Library.AList"
begin

section \<open>HydroSAR: preparing the DEM mosaic (LoadHyP3Data-FullFrame notebook)\<close>

text \<open>
  The notebook collects the DEM tiles of the downloaded RTC products in the folder
  \<^verbatim>\<open>DEMs\<close>, reads the UTM zone of every tile, picks the predominant zone, warps the
  tiles of the other zones into it, and merges all tiles into \<^verbatim>\<open>DEMs/DEM-Mosaic.tif\<close>.
  The cells are modelled below in the order of the notebook. Python exceptions are values
  of \<open>error\<close>; a cell that raises returns \<open>Inl\<close> of the exception.
\<close>

text \<open>
  \<open>EmptyInputError\<close> is the error kind that the specification names for an empty tile
  list. The notebook defines no such exception: no definition below returns it, and it
  is here only so that the outcome of the code can be told apart from it.
\<close>

datatype error =
  ValueError | IndexError | TypeError | AttributeError | NameError | EmptyInputError

subsection \<open>Strings\<close>

text \<open>
  Python's \<^verbatim>\<open>s.split(sep)\<close> for a one-character separator: the pieces between the
  occurrences of \<open>sep\<close>; the result is never empty (\<^verbatim>\<open>''.split('/') == ['']\<close>).
\<close>

fun split :: "char \<Rightarrow> string \<Rightarrow> string list" where
  "split sep [] = [[]]"
| "split sep (c # cs) =
     (if c = sep then [] # split sep cs
      else (case split sep cs of
              [] \<Rightarrow> [[c]]
            | w # ws \<Rightarrow> (c # w) # ws))"

text \<open>The characters that \<^verbatim>\<open>str.strip()\<close> removes from both ends of an ASCII string.\<close>

definition isspace :: "char \<Rightarrow> bool" where
  "isspace c = (c \<in> set [CHR '' '', CHR 0x09, CHR 0x0A, CHR 0x0B, CHR 0x0C, CHR 0x0D,
                          CHR 0x1C, CHR 0x1D, CHR 0x1E, CHR 0x1F])"

definition strip :: "string \<Rightarrow> string" where
  "strip s = rev (dropWhile isspace (rev (dropWhile isspace s)))"

subsection \<open>Support functions\<close>

text \<open>
  \<^verbatim>\<open>def get_DEM_dates(paths)\<close> loops over the notebook's global \<^verbatim>\<open>tiff_paths\<close>, not
  over its parameter. The global is an explicit argument here: \<open>None\<close> while the name is
  unbound (the loop then raises NameError), \<open>Some\<close> of the list once the cell that
  assigns it has run. For each path:
  \<^verbatim>\<open>date = pth.split("/")[-1].split("_")[3].split("T")[0]\<close>.
\<close>

definition DEM_date :: "string \<Rightarrow> error + string" where
  "DEM_date pth =
     (let parts = split CHR ''_'' (last (split CHR ''/'' pth))
      in if 3 < length parts then Inr (hd (split CHR ''T'' (parts ! 3)))
         else Inl IndexError)"

fun dates_loop :: "string list \<Rightarrow> string list \<Rightarrow> error + string list" where
  "dates_loop [] dates = Inr dates"
| "dates_loop (pth # rest) dates =
     (case DEM_date pth of
        Inl e \<Rightarrow> Inl e
      | Inr date \<Rightarrow> dates_loop rest (dates @ [date]))"

definition get_DEM_dates :: "string list option \<Rightarrow> string list \<Rightarrow> error + string list" where
  "get_DEM_dates tiff_paths paths =
     (case tiff_paths of
        None \<Rightarrow> Inl NameError
      | Some tp \<Rightarrow> dates_loop tp [])"

subsection \<open>Files, external tools and the notebook state\<close>

text \<open>
  A raster file is known to the notebook only through the two strings it cuts out of the
  WKT text that \<^verbatim>\<open>gdal.Info\<close> reports: \<^verbatim>\<open>typ = info.split('ID')[-1].split('"')[1]\<close>,
  the authority, and \<^verbatim>\<open>zone = info.split('ID')[-1].split(',')[1][0:-2]\<close>, the code.
  The working directory is a list of paths with their files, in the order in which the
  operating system lists them; the paths are relative to the analysis directory.
\<close>

record raster =
  utm_type :: string
  utm_zone :: string

type_synonym filesystem = "(string \<times> raster) list"

text \<open>
  The external programs and library calls that touch files. A shell command is kept as
  the program with the arguments it receives, a coordinate system \<^verbatim>\<open>typ:zone\<close> as
  the pair of its parts.
\<close>

datatype command =
    Gdalwarp string string "string \<times> string" "string \<times> string"
  | Rm string
  | Gdal_merge string "string list"
  | Os_remove string

text \<open>
  Whether the raster transform service works is outside the notebook: \<open>gdalwarp_ok\<close>
  tells for which source paths \<^verbatim>\<open>gdalwarp\<close> succeeds, \<open>gdal_merge_ok\<close> whether
  \<^verbatim>\<open>gdal_merge.py\<close> does.
\<close>

record tools =
  gdalwarp_ok :: "string \<Rightarrow> bool"
  gdal_merge_ok :: bool

record state =
  files :: filesystem
  calls :: "command list"

text \<open>
  What a call does to the files. \<^verbatim>\<open>gdalwarp -overwrite src dst -s_srs s -t_srs t\<close>
  writes \<open>dst\<close> in the coordinate system \<open>t\<close>, replacing a file that is there; when it
  fails (the source is missing, or the service does not work) it writes nothing.
  \<^verbatim>\<open>rm\<close> and \<^verbatim>\<open>os.remove\<close> delete the file. \<^verbatim>\<open>gdal_merge.py -o out inputs\<close>
  writes \<open>out\<close> in the coordinate system of its first input.
\<close>

fun effect :: "tools \<Rightarrow> command \<Rightarrow> filesystem \<Rightarrow> filesystem" where
  "effect t (Gdalwarp src dst s_srs t_srs) fs =
     (if map_of fs src \<noteq> None \<and> gdalwarp_ok t src
      then AList.update dst \<lparr>utm_type = fst t_srs, utm_zone = snd t_srs\<rparr> fs
      else fs)"
| "effect t (Rm pth) fs = AList.delete pth fs"
| "effect t (Gdal_merge out inputs) fs =
     (case inputs of
        [] \<Rightarrow> fs
      | i # _ \<Rightarrow>
          (case map_of fs i of
             None \<Rightarrow> fs
           | Some r \<Rightarrow>
               if gdal_merge_ok t \<and> list_all (\<lambda>p. map_of fs p \<noteq> None) inputs
               then AList.update out r fs
               else fs))"
| "effect t (Os_remove pth) fs = AList.delete pth fs"

text \<open>
  \<^verbatim>\<open>!{cmd}\<close> runs the command in a shell and goes on whatever its exit status is.
\<close>

definition run :: "tools \<Rightarrow> command \<Rightarrow> state \<Rightarrow> state" where
  "run t cmd st = \<lparr>files = effect t cmd (files st), calls = calls st @ [cmd]\<rparr>"

subsection \<open>Collecting the DEM tiles\<close>

text \<open>
  \<^verbatim>\<open>get_DEM_paths(DEM_pth)\<close> with \<^verbatim>\<open>DEM_pth = "DEMs/*.tif*"\<close> returns what
  \<^verbatim>\<open>glob.glob\<close> finds: the files of the folder \<^verbatim>\<open>DEMs\<close> whose name holds
  \<^verbatim>\<open>.tif\<close> and does not start with a dot.
\<close>

fun has_substring :: "string \<Rightarrow> string \<Rightarrow> bool" where
  "has_substring pat [] = (pat = [])"
| "has_substring pat (c # cs) = (take (length pat) (c # cs) = pat \<or> has_substring pat cs)"

definition matches_DEM_pth :: "string \<Rightarrow> bool" where
  "matches_DEM_pth pth =
     (case split CHR ''/'' pth of
        [d, n] \<Rightarrow> d = ''DEMs'' \<and> take 1 n \<noteq> ''.'' \<and> has_substring ''.tif'' n
      | _ \<Rightarrow> False)"

definition get_DEM_paths :: "filesystem \<Rightarrow> string list" where
  "get_DEM_paths fs = filter matches_DEM_pth (map fst fs)"

text \<open>
  The loop \<^verbatim>\<open>for k in range(0, len(DEM_paths))\<close> that fills \<^verbatim>\<open>utm_zones\<close> and
  \<^verbatim>\<open>utm_types\<close>. For a path that cannot be opened \<^verbatim>\<open>gdal.Info\<close> returns
  \<^verbatim>\<open>None\<close>, and subscripting it raises TypeError.
\<close>

fun utm_loop :: "filesystem \<Rightarrow> string list \<Rightarrow> string list \<Rightarrow> string list \<Rightarrow>
    error + string list \<times> string list" where
  "utm_loop fs [] utm_zones utm_types = Inr (utm_zones, utm_types)"
| "utm_loop fs (pth # rest) utm_zones utm_types =
     (case map_of fs pth of
        None \<Rightarrow> Inl TypeError
      | Some info \<Rightarrow> utm_loop fs rest (utm_zones @ [utm_zone info]) (utm_types @ [utm_type info]))"

subsection \<open>Identifying the predominant UTM zone\<close>

text \<open>
  \<^verbatim>\<open>utm_unique, counts = np.unique(utm_zones, return_counts=True)\<close>:
  numpy returns the distinct elements in ascending order (for strings, the
  lexicographic order of the characters, a proper prefix before the longer string) and,
  beside each, how often it occurs. The zone strings hold no NUL character, which numpy
  would drop at the end of a string.
\<close>

definition np_unique :: "string list \<Rightarrow> string list \<times> nat list" where
  "np_unique ar = (let u = sort (remdups ar) in (u, map (count_list ar) u))"

text \<open>\<^verbatim>\<open>np.max\<close> raises ValueError on an array of size zero.\<close>

fun np_max :: "nat list \<Rightarrow> error + nat" where
  "np_max [] = Inl ValueError"
| "np_max (c # cs) = Inr (fold max cs c)"

text \<open>\<^verbatim>\<open>np.where(counts == m)\<close>: the indices at which \<open>counts\<close> holds \<open>m\<close>, ascending.\<close>

definition np_where_eq :: "nat list \<Rightarrow> nat \<Rightarrow> nat list" where
  "np_where_eq counts m = [i \<leftarrow> [0..<length counts]. counts ! i = m]"

text \<open>
  \<^verbatim>\<open>a = np.where(counts == np.max(counts)); predominant_utm = utm_unique[a][0]\<close>:
  the elements of \<open>utm_unique\<close> at the indices \<open>a\<close>, and of those the first
  (IndexError when there is none).
\<close>

definition predominant_utm :: "string list \<Rightarrow> error + string" where
  "predominant_utm utm_zones =
     (case np_unique utm_zones of (utm_unique, counts) \<Rightarrow>
        (case np_max counts of
           Inl e \<Rightarrow> Inl e
         | Inr m \<Rightarrow>
            (case map ((!) utm_unique) (np_where_eq counts m) of
               [] \<Rightarrow> Inl IndexError
             | z # _ \<Rightarrow> Inr z)))"

text \<open>The variables that the cell leaves for the next one.\<close>

record variables =
  DEM_paths :: "string list"
  utm_zones :: "string list"
  utm_types :: "string list"
  predominant :: string

definition identify_cell :: "filesystem \<Rightarrow> error + variables" where
  "identify_cell fs =
     (let paths = get_DEM_paths fs in
      case utm_loop fs paths [] [] of
        Inl e \<Rightarrow> Inl e
      | Inr (zones, types) \<Rightarrow>
          (case predominant_utm zones of
             Inl e \<Rightarrow> Inl e
           | Inr p \<Rightarrow>
               Inr \<lparr>DEM_paths = paths, utm_zones = zones, utm_types = types,
                    predominant = p\<rparr>))"

subsection \<open>Reprojecting the tiles of the other zones\<close>

text \<open>
  \<^verbatim>\<open>reproject_indicies = [i for i, j in enumerate(utm_zones) if j != predominant_utm]\<close>
\<close>

definition reproject_indicies :: "variables \<Rightarrow> nat list" where
  "reproject_indicies v =
     [i \<leftarrow> [0..<length (utm_zones v)]. utm_zones v ! i \<noteq> predominant v]"

text \<open>
  One round of \<^verbatim>\<open>for k in reproject_indicies\<close>. The path is split at the slash into
  exactly two parts (anything else raises ValueError at the unpacking), the tile is
  warped from \<^verbatim>\<open>product_name/DEM_name\<close> to \<^verbatim>\<open>product_name/rDEM_name\<close>, and then
  the tile is removed.
\<close>

definition reproject_tile :: "tools \<Rightarrow> variables \<Rightarrow> nat \<Rightarrow> state \<Rightarrow> error + state" where
  "reproject_tile t v k st =
     (if length (DEM_paths v) \<le> k then Inl IndexError
      else
        let temppath = strip (DEM_paths v ! k) in
        case split CHR ''/'' temppath of
          [product_name, DEM_name] \<Rightarrow>
            if length (utm_types v) \<le> k \<or> length (utm_zones v) \<le> k then Inl IndexError
            else
              let cmd = Gdalwarp (product_name @ ''/'' @ DEM_name)
                          (product_name @ ''/r'' @ DEM_name)
                          (utm_types v ! k, utm_zones v ! k) (''EPSG'', predominant v);
                  st1 = run t cmd st;
                  rm_command = Rm (strip (DEM_paths v ! k))
              in Inr (run t rm_command st1)
        | _ \<Rightarrow> Inl ValueError)"

fun reproject_loop :: "tools \<Rightarrow> variables \<Rightarrow> nat list \<Rightarrow> state \<Rightarrow> error + state" where
  "reproject_loop t v [] st = Inr st"
| "reproject_loop t v (k # ks) st =
     (case reproject_tile t v k st of
        Inl e \<Rightarrow> Inl e
      | Inr st' \<Rightarrow> reproject_loop t v ks st')"

text \<open>Collecting the tiles, selecting the zone and reprojecting, in one pass.\<close>

definition reproject_pass :: "tools \<Rightarrow> state \<Rightarrow> error + state" where
  "reproject_pass t st =
     (case identify_cell (files st) of
        Inl e \<Rightarrow> Inl e
      | Inr v \<Rightarrow> reproject_loop t v (reproject_indicies v) st)"

subsection \<open>Merging the tiles\<close>

text \<open>
  \<^verbatim>\<open>DEMin = [{}]\<close>, and the loop over \<^verbatim>\<open>d_paths\<close> that joins the paths with blanks
  into \<^verbatim>\<open>DEMin[0]\<close>. \<open>None\<close> stands for the empty dictionary that \<^verbatim>\<open>DEMin[0]\<close>
  holds before the first round; \<^verbatim>\<open>test == 0\<close> holds in the first round only.
\<close>

fun DEMin_loop :: "string list \<Rightarrow> string option \<Rightarrow> string option" where
  "DEMin_loop [] DEMin0 = DEMin0"
| "DEMin_loop (pth # rest) DEMin0 =
     DEMin_loop rest (Some (case DEMin0 of None \<Rightarrow> pth | Some s \<Rightarrow> s @ '' '' @ pth))"

text \<open>The arguments that the shell makes of a command line: its non-empty words.\<close>

definition shell_words :: "string \<Rightarrow> string list" where
  "shell_words s = filter (\<lambda>w. w \<noteq> []) (split CHR '' '' s)"

text \<open>
  \<^verbatim>\<open>for pth in DEMin[0].split(' '): if pth and asfn.path_exists(pth): os.remove(pth)\<close>
\<close>

fun remove_loop :: "tools \<Rightarrow> string list \<Rightarrow> state \<Rightarrow> state" where
  "remove_loop t [] st = st"
| "remove_loop t (pth # rest) st =
     remove_loop t rest
       (if pth \<noteq> [] \<and> map_of (files st) pth \<noteq> None then run t (Os_remove pth) st else st)"

text \<open>
  The rest of the cell: the tiles are collected again, merged into
  \<^verbatim>\<open>DEM-Mosaic.tif\<close> in the folder of the first tile, and removed. With no tile
  \<^verbatim>\<open>DEMin[0]\<close> is still a dictionary, and \<^verbatim>\<open>DEMin[0].split\<close> raises AttributeError.
\<close>

definition mosaic_cell :: "tools \<Rightarrow> state \<Rightarrow> error + state" where
  "mosaic_cell t st =
     (let d_paths = get_DEM_paths (files st) in
      case DEMin_loop d_paths None of
        None \<Rightarrow> Inl AttributeError
      | Some DEMin0 \<Rightarrow>
          (case split CHR ''/'' DEMin0 of
             [] \<Rightarrow> Inl IndexError
           | d # _ \<Rightarrow>
               let output = d @ ''/DEM-Mosaic.tif'';
                   st1 = run t (Gdal_merge output (shell_words DEMin0)) st
               in Inr (remove_loop t (split CHR '' '' DEMin0) st1)))"

text \<open>The whole sequence: select, reproject, merge.\<close>

definition mosaic_workflow :: "tools \<Rightarrow> state \<Rightarrow> error + state" where
  "mosaic_workflow t st =
     (case reproject_pass t st of
        Inl e \<Rightarrow> Inl e
      | Inr st' \<Rightarrow> mosaic_cell t st')"

text \<open>
  The string built for a shell command reaches the program as the arguments above when
  the paths are plain: not empty, and made of letters, digits and \<^verbatim>\<open>/ . _ - +\<close> only,
  so that neither the shell nor \<^verbatim>\<open>strip\<close> and \<^verbatim>\<open>split(' ')\<close> cut or change them.
\<close>

definition plain_char :: "char \<Rightarrow> bool" where
  "plain_char c =
     (c \<in> set ''abcdefghijklmnopqrstuvwxyzABCDEFGHIJKLMNOPQRSTUVWXYZ0123456789/._-+'')"

definition plain_path :: "string \<Rightarrow> bool" where
  "plain_path pth = (pth \<noteq> [] \<and> list_all plain_char pth)"

text \<open>
  The selection as the specification words it: the tally is scanned in the order in
  which the codes are met in the tile list, and the first code that holds the maximum
  count is returned; an empty tile list is an error.
\<close>

definition max_count :: "string list \<Rightarrow> nat" where
  "max_count zs = Max (count_list zs ` set zs)"

definition spec_first_encountered_tied :: "string list \<Rightarrow> string option" where
  "spec_first_encountered_tied zs = find (\<lambda>z. count_list zs z = max_count zs) zs"

subsection \<open>Notions used in the statements\<close>

text \<open>
  Round \<open>k\<close> of the reprojection loop can run: the index is in range, the path is not
  changed by \<^verbatim>\<open>strip\<close>, and it is a path that the collection of the tiles returns.
\<close>

definition tile_ready :: "variables \<Rightarrow> nat \<Rightarrow> bool" where
  "tile_ready v k =
     (k < length (DEM_paths v) \<and> k < length (utm_types v) \<and> k < length (utm_zones v) \<and>
      strip (DEM_paths v ! k) = DEM_paths v ! k \<and> matches_DEM_pth (DEM_paths v ! k))"

text \<open>The files that a call reads as its input or deletes.\<close>

fun touched :: "command \<Rightarrow> string list" where
  "touched (Gdalwarp src dst s_srs t_srs) = [src]"
| "touched (Rm pth) = [pth]"
| "touched (Gdal_merge out inputs) = inputs"
| "touched (Os_remove pth) = [pth]"

subsection \<open>A run of three tiles\<close>

text \<open>
  Three tiles, the first in zone 32644 and the others in zone 32645; what the
  identification cell finds for them; the folder after the first tile was warped; three
  tiles of the one zone 32645; and tools that work, and tools that fail.
\<close>

definition scenario_files :: filesystem where
  "scenario_files =
     [(''DEMs/t1.tif'', \<lparr>utm_type = ''EPSG'', utm_zone = ''32644''\<rparr>),
      (''DEMs/t2.tif'', \<lparr>utm_type = ''EPSG'', utm_zone = ''32645''\<rparr>),
      (''DEMs/t3.tif'', \<lparr>utm_type = ''EPSG'', utm_zone = ''32645''\<rparr>)]"

definition scenario_variables :: variables where
  "scenario_variables =
     \<lparr>DEM_paths = [''DEMs/t1.tif'', ''DEMs/t2.tif'', ''DEMs/t3.tif''],
      utm_zones = [''32644'', ''32645'', ''32645''],
      utm_types = [''EPSG'', ''EPSG'', ''EPSG''],
      predominant = ''32645''\<rparr>"

definition reprojected_files :: filesystem where
  "reprojected_files =
     [(''DEMs/t2.tif'', \<lparr>utm_type = ''EPSG'', utm_zone = ''32645''\<rparr>),
      (''DEMs/t3.tif'', \<lparr>utm_type = ''EPSG'', utm_zone = ''32645''\<rparr>),
      (''DEMs/rt1.tif'', \<lparr>utm_type = ''EPSG'', utm_zone = ''32645''\<rparr>)]"

definition one_zone_files :: filesystem where
  "one_zone_files =
     [(''DEMs/t1.tif'', \<lparr>utm_type = ''EPSG'', utm_zone = ''32645''\<rparr>),
      (''DEMs/t2.tif'', \<lparr>utm_type = ''EPSG'', utm_zone = ''32645''\<rparr>),
      (''DEMs/t3.tif'', \<lparr>utm_type = ''EPSG'', utm_zone = ''32645''\<rparr>)]"

definition warp_calls :: "command list" where
  "warp_calls =
     [Gdalwarp ''DEMs/t1.tif'' ''DEMs/rt1.tif'' (''EPSG'', ''32644'') (''EPSG'', ''32645''),
      Rm ''DEMs/t1.tif'']"

text \<open>The folder that the merge of the three tiles of one zone leaves, and its calls.\<close>

definition mosaic_files :: filesystem where
  "mosaic_files =
     [(''DEMs/DEM-Mosaic.tif'', \<lparr>utm_type = ''EPSG'', utm_zone = ''32645''\<rparr>)]"

definition merge_calls :: "command list" where
  "merge_calls =
     [Gdal_merge ''DEMs/DEM-Mosaic.tif'' [''DEMs/t1.tif'', ''DEMs/t2.tif'', ''DEMs/t3.tif''],
      Os_remove ''DEMs/t1.tif'', Os_remove ''DEMs/t2.tif'', Os_remove ''DEMs/t3.tif'']"

definition working_tools :: tools where
  "working_tools = \<lparr>gdalwarp_ok = (\<lambda>pth. True), gdal_merge_ok = True\<rparr>"

definition failing_tools :: tools where
  "failing_tools = \<lparr>gdalwarp_ok = (\<lambda>pth. False), gdal_merge_ok = False\<rparr>"

section \<open>Properties of the selection\<close>

lemma np_max_Max: "cs \<noteq> [] \<Longrightarrow> np_max cs = Inr (Max (set cs))"
  by (cases cs) (simp_all add: Max.set_eq_fold[symmetric])

lemma nth_filter_index:
  "map ((!) u) [i \<leftarrow> [0..<length u]. P (u ! i)] = filter P u"
proof -
  have "filter P u = filter P (map ((!) u) [0..<length u])"
    by (simp add: map_nth)
  also have "\<dots> = map ((!) u) (filter (P \<circ> (!) u) [0..<length u])"
    by (simp only: filter_map)
  finally show ?thesis by (simp add: comp_def)
qed

lemma where_counts:
  "map ((!) u) (np_where_eq (map f u) m) = filter (\<lambda>x. f x = m) u"
proof -
  have "[i \<leftarrow> [0..<length u]. map f u ! i = m] = [i \<leftarrow> [0..<length u]. f (u ! i) = m]"
    by (rule filter_cong) simp_all
  then show ?thesis
    using nth_filter_index[of u "\<lambda>x. f x = m"] by (simp add: np_where_eq_def)
qed

lemma sorted_filter_head:
  assumes "sorted u" and "filter P u = z # rest"
  shows "z \<in> set u \<and> P z \<and> (\<forall>y \<in> set u. P y \<longrightarrow> z \<le> y)"
proof -
  have "sorted (filter P u)" using assms(1) by (rule sorted_wrt_filter)
  then have le: "\<forall>y \<in> set (filter P u). z \<le> y"
    using assms(2) by auto
  have "z \<in> set (filter P u)" using assms(2) by simp
  then show ?thesis using le by auto
qed

lemma max_count_attained:
  assumes "zs \<noteq> []"
  shows "\<exists>c \<in> set zs. count_list zs c = max_count zs"
proof -
  have "finite (count_list zs ` set zs)" and "count_list zs ` set zs \<noteq> {}"
    using assms by simp_all
  then have "Max (count_list zs ` set zs) \<in> count_list zs ` set zs"
    by (rule Max_in)
  then show ?thesis by (auto simp: max_count_def)
qed

lemma predominant_utm_filter:
  assumes "zs \<noteq> []"
  shows "predominant_utm zs =
           (case filter (\<lambda>x. count_list zs x = max_count zs) (sort (remdups zs)) of
              [] \<Rightarrow> Inl IndexError | z # _ \<Rightarrow> Inr z)"
proof -
  have ne: "map (count_list zs) (sort (remdups zs)) \<noteq> []"
    using assms by (cases zs) (auto simp: sort_key_def[symmetric] dest: arg_cong[where f = length])
  have m: "Max (set (map (count_list zs) (sort (remdups zs)))) = max_count zs"
    by (simp add: max_count_def)
  show ?thesis
    unfolding predominant_utm_def np_unique_def Let_def prod.case
    by (simp only: np_max_Max[OF ne] m sum.case where_counts)
qed

lemma predominant_utm_least_tied:
  assumes "zs \<noteq> []"
  shows "\<exists>z. predominant_utm zs = Inr z \<and> z \<in> set zs \<and> count_list zs z = max_count zs
           \<and> (\<forall>y \<in> set zs. count_list zs y = max_count zs \<longrightarrow> z \<le> y)"
proof -
  let ?P = "\<lambda>x. count_list zs x = max_count zs"
  let ?u = "sort (remdups zs)"
  obtain c where c: "c \<in> set zs" "?P c"
    using max_count_attained[OF assms] by blast
  then have "c \<in> set (filter ?P ?u)" by simp
  then obtain z rest where f: "filter ?P ?u = z # rest"
    by (cases "filter ?P ?u") auto
  have "sorted ?u" by simp
  from sorted_filter_head[OF this f]
  have "z \<in> set zs \<and> ?P z \<and> (\<forall>y \<in> set zs. ?P y \<longrightarrow> z \<le> y)" by simp
  moreover have "predominant_utm zs = Inr z"
    by (simp add: predominant_utm_filter[OF assms] f)
  ultimately show ?thesis by blast
qed

lemma find_filter_head:
  "find P xs = (case filter P xs of [] \<Rightarrow> None | x # _ \<Rightarrow> Some x)"
  by (induction xs) simp_all

lemma spec_first_encountered_tied_Some:
  assumes "zs \<noteq> []"
  shows "\<exists>f. spec_first_encountered_tied zs = Some f \<and> f \<in> set zs
           \<and> count_list zs f = max_count zs"
proof -
  obtain c where "c \<in> set zs" "count_list zs c = max_count zs"
    using max_count_attained[OF assms] by blast
  then have "find (\<lambda>z. count_list zs z = max_count zs) zs \<noteq> None"
    by (auto simp: find_None_iff)
  then obtain f where "find (\<lambda>z. count_list zs z = max_count zs) zs = Some f"
    by auto
  then show ?thesis
    by (auto simp: spec_first_encountered_tied_def find_Some_iff)
qed

lemma predominant_utm_ABAB: "predominant_utm [A, B, A, B] = Inr (min A B)"
proof -
  let ?zs = "[A, B, A, B]"
  obtain z where z: "predominant_utm ?zs = Inr z" "z \<in> set ?zs"
    "\<forall>y \<in> set ?zs. count_list ?zs y = max_count ?zs \<longrightarrow> z \<le> y"
    using predominant_utm_least_tied[of ?zs] by auto
  have "max_count ?zs = count_list ?zs A" "max_count ?zs = count_list ?zs B"
    by (auto simp: max_count_def)
  with z(3) have "z \<le> A" "z \<le> B" by auto
  with z(2) have "z = min A B" by (auto simp: min_def)
  with z(1) show ?thesis by simp
qed

text \<open>
  C4 as stated fails: on the empty tile list the selection does fail, but the exception
  is the ValueError that \<^verbatim>\<open>np.max\<close> raises on the empty count array, not an
  EmptyInputError.
\<close>

theorem predominant_utm_empty_not_EmptyInputError:
  "predominant_utm [] = Inl ValueError \<and> predominant_utm [] \<noteq> Inl EmptyInputError"
  by (simp add: predominant_utm_def np_unique_def)

text \<open>
  C4, amended. The selection fails on the empty tile list and on no other, and the
  failure is numpy's ValueError: no zone is returned, and nothing is passed over in
  silence.
\<close>

theorem predominant_utm_fails_iff_empty:
  "(predominant_utm zs = Inl e) = (zs = [] \<and> e = ValueError)"
proof (cases "zs = []")
  case True
  then show ?thesis by (auto simp: predominant_utm_def np_unique_def)
next
  case False
  then show ?thesis using predominant_utm_least_tied[OF False] by auto
qed

text \<open>
  C3. For every non-empty list of zone codes the selection returns a code of the list,
  and when all tiles carry the same code, that code.
\<close>

theorem predominant_utm_present:
  "zs \<noteq> [] \<Longrightarrow>
     (\<exists>z. predominant_utm zs = Inr z \<and> z \<in> set zs) \<and>
     ((\<forall>x \<in> set zs. x = c) \<longrightarrow> predominant_utm zs = Inr c)"
  using predominant_utm_least_tied[of zs] by auto

theorem predominant_utm_present_witness:
  "[''32644'', ''32645'', ''32645''] \<noteq> [] \<and>
   (\<exists>z. predominant_utm [''32644'', ''32645'', ''32645''] = Inr z
        \<and> z \<in> set [''32644'', ''32645'', ''32645'']) \<and>
   set [''32645'', ''32645''] = {''32645''} \<and>
   predominant_utm [''32645'', ''32645''] = Inr ''32645''"
  using predominant_utm_present[of "[''32644'', ''32645'', ''32645'']" "''32645''"]
    predominant_utm_present[of "[''32645'', ''32645'']" "''32645''"]
  by simp

text \<open>
  C1 as stated fails: with the codes \<open>A = 32645\<close> and \<open>B = 32644\<close> the tile list
  \<open>[A, B, A, B]\<close> ties both codes at two tiles; the tied code met first is \<open>A\<close>, and the
  notebook selects \<open>B\<close>.
\<close>

theorem predominant_utm_not_first_encountered:
  "predominant_utm [''32645'', ''32644'', ''32645'', ''32644''] = Inr ''32644'' \<and>
   spec_first_encountered_tied [''32645'', ''32644'', ''32645'', ''32644''] = Some ''32645''"
  by (simp add: predominant_utm_def np_unique_def np_where_eq_def
      spec_first_encountered_tied_def max_count_def)

text \<open>
  C1, amended. For every non-empty tile list the selected code holds the maximum count
  and is the least, in the order of the code strings, of the codes that hold it; so it is
  never greater than the tied code met first in the tile list, and it is that code only
  when that code is the least of the tied ones. For the codes \<open>[A, B, A, B]\<close> the
  smaller of \<open>A\<close> and \<open>B\<close> is selected.
\<close>

theorem predominant_utm_least_of_tied:
  "(zs \<noteq> [] \<longrightarrow>
      (\<exists>z f. predominant_utm zs = Inr z \<and> spec_first_encountered_tied zs = Some f \<and>
             count_list zs z = max_count zs \<and> count_list zs f = max_count zs \<and> z \<le> f \<and>
             (\<forall>y \<in> set zs. count_list zs y = max_count zs \<longrightarrow> z \<le> y))) \<and>
   predominant_utm [A, B, A, B] = Inr (min A B)"
proof (intro conjI impI)
  assume ne: "zs \<noteq> []"
  obtain z where z: "predominant_utm zs = Inr z" "count_list zs z = max_count zs"
    "\<forall>y \<in> set zs. count_list zs y = max_count zs \<longrightarrow> z \<le> y"
    using predominant_utm_least_tied[OF ne] by blast
  obtain f where f: "spec_first_encountered_tied zs = Some f" "f \<in> set zs"
    "count_list zs f = max_count zs"
    using spec_first_encountered_tied_Some[OF ne] by blast
  from z(3) f(2,3) have "z \<le> f" by blast
  with z f show "\<exists>z f. predominant_utm zs = Inr z \<and> spec_first_encountered_tied zs = Some f \<and>
             count_list zs z = max_count zs \<and> count_list zs f = max_count zs \<and> z \<le> f \<and>
             (\<forall>y \<in> set zs. count_list zs y = max_count zs \<longrightarrow> z \<le> y)"
    by blast
next
  show "predominant_utm [A, B, A, B] = Inr (min A B)"
    by (rule predominant_utm_ABAB)
qed

theorem predominant_utm_least_of_tied_witness:
  "[''32644'', ''32645'', ''32645''] \<noteq> [] \<and>
   (\<exists>z f. predominant_utm [''32644'', ''32645'', ''32645''] = Inr z \<and>
          spec_first_encountered_tied [''32644'', ''32645'', ''32645''] = Some f \<and> z \<le> f) \<and>
   predominant_utm [''32645'', ''32644'', ''32645'', ''32644''] = Inr ''32644''"
  using predominant_utm_least_of_tied[of "[''32644'', ''32645'', ''32645'']" "''32645''" "''32644''"]
  by auto

text \<open>
  C9. The selected code is the first code, in the ascending order in which
  \<^verbatim>\<open>np.unique\<close> lists the distinct codes, that holds the maximum count. For the
  codes \<open>[B, A, B, A]\<close> with \<open>A < B\<close> it is \<open>A\<close>, although \<open>B\<close> is met first in the
  tile list.
\<close>

theorem predominant_utm_first_in_sorted_order:
  "(zs \<noteq> [] \<longrightarrow>
      (\<exists>z. predominant_utm zs = Inr z \<and>
           find (\<lambda>c. count_list zs c = max_count zs) (sort (remdups zs)) = Some z)) \<and>
   (A < B \<longrightarrow> predominant_utm [B, A, B, A] = Inr A \<and>
              spec_first_encountered_tied [B, A, B, A] = Some B)"
proof (intro conjI impI)
  assume ne: "zs \<noteq> []"
  obtain z where "predominant_utm zs = Inr z"
    using predominant_utm_least_tied[OF ne] by blast
  then show "\<exists>z. predominant_utm zs = Inr z \<and>
           find (\<lambda>c. count_list zs c = max_count zs) (sort (remdups zs)) = Some z"
    by (auto simp: predominant_utm_filter[OF ne] find_filter_head split: list.splits)
next
  assume "A < B"
  then show "predominant_utm [B, A, B, A] = Inr A"
    by (simp add: predominant_utm_ABAB min_absorb2 less_imp_le)
next
  assume "A < B"
  then have "A \<noteq> B" by auto
  then show "spec_first_encountered_tied [B, A, B, A] = Some B"
    by (auto simp: spec_first_encountered_tied_def max_count_def)
qed

theorem predominant_utm_first_in_sorted_order_witness:
  "[''32645'', ''32644'', ''32645'', ''32644''] \<noteq> [] \<and> ''32644'' < ''32645'' \<and>
   predominant_utm [''32645'', ''32644'', ''32645'', ''32644''] = Inr ''32644'' \<and>
   spec_first_encountered_tied [''32645'', ''32644'', ''32645'', ''32644''] = Some ''32645''"
  using predominant_utm_first_in_sorted_order
    [of "[''32645'', ''32644'', ''32645'', ''32644'']" "''32644''" "''32645''"]
  by simp

section \<open>Properties of the files\<close>

subsection \<open>Strings and paths\<close>

lemma split_not_Nil: "split sep s \<noteq> []"
  by (induction s) (auto split: list.splits)

lemma split_no_sep: "sep \<notin> set s \<Longrightarrow> split sep s = [s]"
  by (induction s) auto

lemma split_append_sep:
  "sep \<notin> set a \<Longrightarrow> split sep (a @ sep # b) = a # split sep b"
  by (induction a) auto

lemma split_single: "split sep s = [b] \<Longrightarrow> s = b"
  by (induction s arbitrary: b) (auto split: if_splits list.splits simp: split_not_Nil)

lemma split_two: "split sep s = [a, b] \<Longrightarrow> s = a @ sep # b"
proof (induction s arbitrary: a)
  case Nil
  then show ?case by simp
next
  case (Cons c cs)
  show ?case
  proof (cases "c = sep")
    case True
    with Cons.prems have "a = []" "split sep cs = [b]" by auto
    then show ?thesis using True split_single by auto
  next
    case False
    with Cons.prems obtain w where "a = c # w" "split sep cs = [w, b]"
      by (auto split: list.splits)
    then show ?thesis using Cons.IH by auto
  qed
qed

lemma plain_not_space: "plain_char c \<Longrightarrow> \<not> isspace c"
  by (auto simp: plain_char_def isspace_def)

lemma plain_not_blank: "plain_char c \<Longrightarrow> c \<noteq> CHR '' ''"
  by (auto simp: plain_char_def)

lemma strip_no_space: "\<forall>c \<in> set s. \<not> isspace c \<Longrightarrow> strip s = s"
proof -
  assume a: "\<forall>c \<in> set s. \<not> isspace c"
  have d: "\<And>xs. \<forall>c \<in> set xs. \<not> isspace c \<Longrightarrow> dropWhile isspace xs = xs"
    by (case_tac xs) auto
  show ?thesis using a by (simp add: strip_def d)
qed

lemma strip_plain: "plain_path p \<Longrightarrow> strip p = p"
  by (rule strip_no_space) (auto simp: plain_path_def list_all_iff plain_not_space)

lemma matches_DEM_pth_split:
  "matches_DEM_pth p \<Longrightarrow> \<exists>n. split CHR ''/'' p = [''DEMs'', n] \<and> p = ''DEMs/'' @ n"
  by (auto simp: matches_DEM_pth_def split: list.splits dest: split_two)

subsection \<open>The identification cell\<close>

lemma utm_loop_all:
  "\<forall>p \<in> set ps. map_of fs p \<noteq> None \<Longrightarrow>
     utm_loop fs ps zs ts =
       Inr (zs @ map (\<lambda>p. utm_zone (the (map_of fs p))) ps,
            ts @ map (\<lambda>p. utm_type (the (map_of fs p))) ps)"
  by (induction ps arbitrary: zs ts) auto

lemma get_DEM_paths_exist: "p \<in> set (get_DEM_paths fs) \<Longrightarrow> map_of fs p \<noteq> None"
  by (auto simp: get_DEM_paths_def map_of_eq_None_iff)

lemma get_DEM_paths_match: "p \<in> set (get_DEM_paths fs) \<Longrightarrow> matches_DEM_pth p"
  by (simp add: get_DEM_paths_def)

lemma get_DEM_paths_iff:
  "p \<in> set (get_DEM_paths fs) \<longleftrightarrow> matches_DEM_pth p \<and> map_of fs p \<noteq> None"
  by (auto simp: get_DEM_paths_def map_of_eq_None_iff)

lemma identify_cell_Inr:
  assumes "identify_cell fs = Inr v"
  shows "DEM_paths v = get_DEM_paths fs"
    and "utm_zones v = map (\<lambda>p. utm_zone (the (map_of fs p))) (get_DEM_paths fs)"
    and "utm_types v = map (\<lambda>p. utm_type (the (map_of fs p))) (get_DEM_paths fs)"
    and "predominant_utm (utm_zones v) = Inr (predominant v)"
proof -
  have u: "utm_loop fs (get_DEM_paths fs) [] [] =
      Inr (map (\<lambda>p. utm_zone (the (map_of fs p))) (get_DEM_paths fs),
           map (\<lambda>p. utm_type (the (map_of fs p))) (get_DEM_paths fs))"
    using utm_loop_all[of "get_DEM_paths fs" fs "[]" "[]"] get_DEM_paths_exist by simp
  from assms show "DEM_paths v = get_DEM_paths fs"
    and "utm_zones v = map (\<lambda>p. utm_zone (the (map_of fs p))) (get_DEM_paths fs)"
    and "utm_types v = map (\<lambda>p. utm_type (the (map_of fs p))) (get_DEM_paths fs)"
    and "predominant_utm (utm_zones v) = Inr (predominant v)"
    by (auto simp: identify_cell_def u Let_def split: sum.splits)
qed

lemma identify_cell_nonempty:
  assumes "identify_cell fs = Inr v"
  shows "utm_zones v \<noteq> []" and "predominant v \<in> set (utm_zones v)"
proof -
  have p: "predominant_utm (utm_zones v) = Inr (predominant v)"
    using identify_cell_Inr(4)[OF assms] .
  show ne: "utm_zones v \<noteq> []"
    using p by (auto simp: predominant_utm_def np_unique_def)
  show "predominant v \<in> set (utm_zones v)"
    using predominant_utm_least_tied[OF ne] p by auto
qed

lemma identify_cell_succeeds:
  assumes "get_DEM_paths fs \<noteq> []"
  shows "\<exists>v. identify_cell fs = Inr v"
proof -
  let ?zs = "map (\<lambda>p. utm_zone (the (map_of fs p))) (get_DEM_paths fs)"
  have u: "utm_loop fs (get_DEM_paths fs) [] [] =
      Inr (?zs, map (\<lambda>p. utm_type (the (map_of fs p))) (get_DEM_paths fs))"
    using utm_loop_all[of "get_DEM_paths fs" fs "[]" "[]"] get_DEM_paths_exist by simp
  have "?zs \<noteq> []" using assms by simp
  then obtain z where "predominant_utm ?zs = Inr z"
    using predominant_utm_least_tied by blast
  then show ?thesis by (simp add: identify_cell_def u Let_def)
qed

lemma reproject_indicies_iff:
  "k \<in> set (reproject_indicies v) \<longleftrightarrow> k < length (utm_zones v) \<and> utm_zones v ! k \<noteq> predominant v"
  by (auto simp: reproject_indicies_def)

lemma reproject_tile_shape:
  assumes "k < length (DEM_paths v)" "k < length (utm_types v)" "k < length (utm_zones v)"
    and "strip (DEM_paths v ! k) = DEM_paths v ! k"
    and "split CHR ''/'' (DEM_paths v ! k) = [d, n]"
  shows "reproject_tile t v k st =
           Inr (run t (Rm (DEM_paths v ! k))
                 (run t (Gdalwarp (DEM_paths v ! k) (d @ ''/r'' @ n)
                           (utm_types v ! k, utm_zones v ! k) (''EPSG'', predominant v)) st))"
  using assms split_two[OF assms(5)] by (simp add: reproject_tile_def)

subsection \<open>The reprojection loop\<close>

lemma reproject_tile_ready:
  assumes "tile_ready v k"
  shows "\<exists>st' n. reproject_tile t v k st = Inr st' \<and> DEM_paths v ! k = ''DEMs/'' @ n \<and>
           map_of (files st') =
             (if map_of (files st) (DEM_paths v ! k) \<noteq> None \<and> gdalwarp_ok t (DEM_paths v ! k)
              then (map_of (files st))(''DEMs/r'' @ n \<mapsto>
                      \<lparr>utm_type = ''EPSG'', utm_zone = predominant v\<rparr>)
              else map_of (files st))(DEM_paths v ! k := None) \<and>
           calls st' = calls st @
             [Gdalwarp (DEM_paths v ! k) (''DEMs/r'' @ n) (utm_types v ! k, utm_zones v ! k)
                (''EPSG'', predominant v),
              Rm (DEM_paths v ! k)]"
proof -
  obtain n where n: "split CHR ''/'' (DEM_paths v ! k) = [''DEMs'', n]"
    "DEM_paths v ! k = ''DEMs/'' @ n"
    using assms matches_DEM_pth_split unfolding tile_ready_def by blast
  have "reproject_tile t v k st =
           Inr (run t (Rm (DEM_paths v ! k))
                 (run t (Gdalwarp (DEM_paths v ! k) (''DEMs'' @ ''/r'' @ n)
                           (utm_types v ! k, utm_zones v ! k) (''EPSG'', predominant v)) st))"
    using assms n(1) unfolding tile_ready_def by (intro reproject_tile_shape) simp_all
  then show ?thesis
    using n(2) by (auto simp: run_def AList.update_conv' AList.delete_conv')
qed

lemma reproject_loop_keeps:
  assumes "\<forall>k \<in> set ks. tile_ready v k"
    and "\<forall>k \<in> set ks. DEM_paths v ! k \<noteq> q"
    and "map_of (files st) q \<noteq> None"
  shows "\<exists>st' new. reproject_loop t v ks st = Inr st' \<and> map_of (files st') q \<noteq> None \<and>
           calls st' = calls st @ new \<and> q \<notin> set (concat (map touched new))"
  using assms
proof (induction ks arbitrary: st)
  case Nil
  then show ?case by simp
next
  case (Cons k ks)
  from Cons.prems(1) have r: "tile_ready v k" by simp
  obtain st1 n where s: "reproject_tile t v k st = Inr st1" "DEM_paths v ! k = ''DEMs/'' @ n"
    "map_of (files st1) =
       (if map_of (files st) (DEM_paths v ! k) \<noteq> None \<and> gdalwarp_ok t (DEM_paths v ! k)
        then (map_of (files st))(''DEMs/r'' @ n \<mapsto>
                \<lparr>utm_type = ''EPSG'', utm_zone = predominant v\<rparr>)
        else map_of (files st))(DEM_paths v ! k := None)"
    "calls st1 = calls st @
       [Gdalwarp (DEM_paths v ! k) (''DEMs/r'' @ n) (utm_types v ! k, utm_zones v ! k)
          (''EPSG'', predominant v),
        Rm (DEM_paths v ! k)]"
    using reproject_tile_ready[OF r, of t st] by blast
  from Cons.prems(2) have ne: "DEM_paths v ! k \<noteq> q" by simp
  have q1: "map_of (files st1) q \<noteq> None"
    using Cons.prems(3) ne by (simp add: s(3))
  obtain st' new where l: "reproject_loop t v ks st1 = Inr st'" "map_of (files st') q \<noteq> None"
    "calls st' = calls st1 @ new" "q \<notin> set (concat (map touched new))"
    using Cons.IH[OF _ _ q1] Cons.prems(1,2) by auto
  show ?case
    using l ne by (simp add: s(1) s(4))
qed

lemma reproject_loop_zones:
  assumes "\<forall>k \<in> set ks. tile_ready v k"
    and "\<forall>p r. map_of (files st) p = Some r \<longrightarrow> matches_DEM_pth p \<longrightarrow>
           utm_zone r = predominant v \<or> p \<in> (\<lambda>k. DEM_paths v ! k) ` set ks"
  shows "\<exists>st'. reproject_loop t v ks st = Inr st' \<and>
           (\<forall>p r. map_of (files st') p = Some r \<longrightarrow> matches_DEM_pth p \<longrightarrow>
              utm_zone r = predominant v)"
  using assms
proof (induction ks arbitrary: st)
  case Nil
  then show ?case by simp
next
  case (Cons k ks)
  from Cons.prems(1) have r: "tile_ready v k" by simp
  obtain st1 n where s: "reproject_tile t v k st = Inr st1"
    "map_of (files st1) =
       (if map_of (files st) (DEM_paths v ! k) \<noteq> None \<and> gdalwarp_ok t (DEM_paths v ! k)
        then (map_of (files st))(''DEMs/r'' @ n \<mapsto>
                \<lparr>utm_type = ''EPSG'', utm_zone = predominant v\<rparr>)
        else map_of (files st))(DEM_paths v ! k := None)"
    using reproject_tile_ready[OF r, of t st] by blast
  have inv: "\<forall>p r. map_of (files st1) p = Some r \<longrightarrow> matches_DEM_pth p \<longrightarrow>
           utm_zone r = predominant v \<or> p \<in> (\<lambda>k. DEM_paths v ! k) ` set ks"
  proof (intro allI impI)
    fix p r
    assume a: "map_of (files st1) p = Some r" "matches_DEM_pth p"
    then have pk: "p \<noteq> DEM_paths v ! k" by (auto simp: s(2))
    show "utm_zone r = predominant v \<or> p \<in> (\<lambda>k. DEM_paths v ! k) ` set ks"
    proof (cases "map_of (files st) p = Some r")
      case True
      with Cons.prems(2) a(2) pk show ?thesis by auto
    next
      case False
      with a(1) pk have "r = \<lparr>utm_type = ''EPSG'', utm_zone = predominant v\<rparr>"
        by (auto simp: s(2) split: if_splits)
      then show ?thesis by simp
    qed
  qed
  show ?case
    using Cons.IH[OF _ inv] Cons.prems(1) by (simp add: s(1))
qed

lemma identify_cell_zone_nth:
  assumes "identify_cell fs = Inr v" and "k < length (DEM_paths v)"
  shows "utm_zones v ! k = utm_zone (the (map_of fs (DEM_paths v ! k)))"
    and "length (utm_zones v) = length (DEM_paths v)"
    and "length (utm_types v) = length (DEM_paths v)"
    and "matches_DEM_pth (DEM_paths v ! k)"
    and "map_of fs (DEM_paths v ! k) \<noteq> None"
proof -
  note i = identify_cell_Inr[OF assms(1)]
  show "utm_zones v ! k = utm_zone (the (map_of fs (DEM_paths v ! k)))"
    using assms(2) by (simp add: i(1) i(2))
  show "length (utm_zones v) = length (DEM_paths v)" by (simp add: i(1) i(2))
  show "length (utm_types v) = length (DEM_paths v)" by (simp add: i(1) i(3))
  have "DEM_paths v ! k \<in> set (get_DEM_paths fs)"
    using assms(2) by (simp add: i(1)[symmetric])
  then show "matches_DEM_pth (DEM_paths v ! k)" and "map_of fs (DEM_paths v ! k) \<noteq> None"
    by (simp_all add: get_DEM_paths_iff)
qed

lemma identify_cell_ready:
  assumes "identify_cell fs = Inr v" and "list_all plain_path (DEM_paths v)"
    and "k < length (DEM_paths v)"
  shows "tile_ready v k"
proof -
  have "plain_path (DEM_paths v ! k)"
    using assms(2,3) by (simp add: list_all_length)
  then show ?thesis
    using identify_cell_zone_nth[OF assms(1,3)] assms(3)
    by (simp add: tile_ready_def strip_plain)
qed

lemma reproject_indicies_ready:
  assumes "identify_cell fs = Inr v" and "list_all plain_path (DEM_paths v)"
  shows "\<forall>k \<in> set (reproject_indicies v). tile_ready v k"
proof
  fix k assume "k \<in> set (reproject_indicies v)"
  then have "k < length (utm_zones v)" by (simp add: reproject_indicies_iff)
  then have "k < length (DEM_paths v)"
    using identify_cell_Inr(1,2)[OF assms(1)] by simp
  then show "tile_ready v k" by (rule identify_cell_ready[OF assms])
qed

lemma reproject_indicies_other_path:
  assumes "identify_cell fs = Inr v" and "m < length (DEM_paths v)"
    and "utm_zones v ! m = predominant v"
  shows "\<forall>k \<in> set (reproject_indicies v). DEM_paths v ! k \<noteq> DEM_paths v ! m"
proof
  fix k assume k: "k \<in> set (reproject_indicies v)"
  then have kz: "k < length (utm_zones v)" "utm_zones v ! k \<noteq> predominant v"
    by (simp_all add: reproject_indicies_iff)
  have kl: "k < length (DEM_paths v)"
    using kz(1) identify_cell_Inr(1,2)[OF assms(1)] by simp
  show "DEM_paths v ! k \<noteq> DEM_paths v ! m"
    using identify_cell_zone_nth(1)[OF assms(1) kl] identify_cell_zone_nth(1)[OF assms(1,2)]
      kz(2) assms(3) by auto
qed

subsection \<open>The merge\<close>

lemma DEMin_loop_Some:
  "DEMin_loop ps (Some s) = Some (s @ concat (map ((#) CHR '' '') ps))"
  by (induction ps arbitrary: s) simp_all

lemma split_blank_joined:
  "\<forall>q \<in> set (p # ps). CHR '' '' \<notin> set q \<Longrightarrow>
     split CHR '' '' (p @ concat (map ((#) CHR '' '') ps)) = p # ps"
proof (induction ps arbitrary: p)
  case Nil
  then show ?case by (simp add: split_no_sep)
next
  case (Cons q qs)
  have "split CHR '' '' (p @ CHR '' '' # (q @ concat (map ((#) CHR '' '') qs)))
          = p # split CHR '' '' (q @ concat (map ((#) CHR '' '') qs))"
    using Cons.prems by (intro split_append_sep) simp
  moreover have "split CHR '' '' (q @ concat (map ((#) CHR '' '') qs)) = q # qs"
    using Cons.prems by (intro Cons.IH) simp
  ultimately show ?case by simp
qed

lemma plain_path_no_blank: "plain_path p \<Longrightarrow> CHR '' '' \<notin> set p"
  by (auto simp: plain_path_def list_all_iff dest: plain_not_blank)

lemma remove_loop_files:
  "map_of (files (remove_loop t ps st)) =
     (\<lambda>q. if q \<in> set ps \<and> q \<noteq> [] then None else map_of (files st) q)"
proof (induction ps arbitrary: st)
  case Nil
  then show ?case by simp
next
  case (Cons p ps)
  show ?case
    by (auto simp: Cons.IH run_def AList.delete_conv' fun_eq_iff)
qed

lemma mosaic_cell_steps:
  assumes "get_DEM_paths (files st) = p # ps"
    and "list_all plain_path (p # ps)"
  shows "mosaic_cell t st =
           Inr (remove_loop t (p # ps) (run t (Gdal_merge ''DEMs/DEM-Mosaic.tif'' (p # ps)) st))"
proof -
  let ?s = "p @ concat (map ((#) CHR '' '') ps)"
  have nb: "\<forall>q \<in> set (p # ps). CHR '' '' \<notin> set q"
    using assms(2) by (auto simp: list_all_iff dest: plain_path_no_blank)
  have ne: "\<forall>q \<in> set (p # ps). q \<noteq> []"
    using assms(2) by (auto simp: list_all_iff plain_path_def)
  have sp: "split CHR '' '' ?s = p # ps" by (rule split_blank_joined[OF nb])
  have sw: "shell_words ?s = p # ps"
    using ne by (simp add: shell_words_def sp)
  have "p \<in> set (get_DEM_paths (files st))" by (simp add: assms(1))
  then obtain n where n: "p = ''DEMs/'' @ n"
    using get_DEM_paths_match matches_DEM_pth_split by blast
  have "split CHR ''/'' (''DEMs'' @ CHR ''/'' # (n @ concat (map ((#) CHR '' '') ps)))
          = ''DEMs'' # split CHR ''/'' (n @ concat (map ((#) CHR '' '') ps))"
    by (intro split_append_sep) simp
  then have sd: "split CHR ''/'' ?s = ''DEMs'' # split CHR ''/'' (n @ concat (map ((#) CHR '' '') ps))"
    by (simp add: n)
  show ?thesis
    by (simp add: mosaic_cell_def assms(1) DEMin_loop_Some sd sw sp del: remove_loop.simps)
qed

lemma remove_loop_calls:
  "\<exists>rs. calls (remove_loop t ps st) = calls st @ rs \<and> set rs \<subseteq> Os_remove ` set ps"
proof (induction ps arbitrary: st)
  case Nil
  then show ?case by simp
next
  case (Cons p ps)
  let ?st1 = "if p \<noteq> [] \<and> map_of (files st) p \<noteq> None then run t (Os_remove p) st else st"
  obtain rs where rs: "calls (remove_loop t ps ?st1) = calls ?st1 @ rs"
    "set rs \<subseteq> Os_remove ` set ps"
    using Cons.IH[of ?st1] by blast
  obtain r1 where r1: "calls ?st1 = calls st @ r1" "set r1 \<subseteq> {Os_remove p}"
    by (cases "p \<noteq> [] \<and> map_of (files st) p \<noteq> None") (auto simp: run_def)
  have "calls (remove_loop t (p # ps) st) = calls st @ (r1 @ rs)"
    using rs(1) r1(1) by simp
  moreover have "set (r1 @ rs) \<subseteq> Os_remove ` set (p # ps)"
    using rs(2) r1(2) by auto
  ultimately show ?case by blast
qed

lemma remove_loop_files_plain:
  assumes "list_all plain_path ps"
  shows "map_of (files (remove_loop t ps st)) =
           (\<lambda>q. if q \<in> set ps then None else map_of (files st) q)"
proof -
  have "\<forall>q \<in> set ps. q \<noteq> []"
    using assms by (auto simp: list_all_iff plain_path_def)
  then show ?thesis
    by (auto simp: remove_loop_files fun_eq_iff)
qed

lemma scenario_identify: "identify_cell scenario_files = Inr scenario_variables"
  by code_simp

lemma scenario_plain: "list_all plain_path (DEM_paths scenario_variables)"
  by code_simp

section \<open>The reprojection and the merge, claim by claim\<close>

text \<open>
  C5. A tile whose zone is already the predominant one is not among the indices to
  reproject; the loop makes no call that reads or removes its file, and after the loop
  the tile is still found under the same path.
\<close>

theorem matching_tile_left_alone:
  assumes "identify_cell (files st) = Inr v"
    and "list_all plain_path (DEM_paths v)"
    and "k < length (DEM_paths v)"
    and "utm_zones v ! k = predominant v"
  shows "k \<notin> set (reproject_indicies v) \<and>
         (\<exists>st' new. reproject_loop t v (reproject_indicies v) st = Inr st' \<and>
            calls st' = calls st @ new \<and>
            DEM_paths v ! k \<notin> set (concat (map touched new)) \<and>
            DEM_paths v ! k \<in> set (get_DEM_paths (files st')))"
proof -
  let ?q = "DEM_paths v ! k"
  have a: "k \<notin> set (reproject_indicies v)"
    using assms(4) by (simp add: reproject_indicies_iff)
  have q: "map_of (files st) ?q \<noteq> None" "matches_DEM_pth ?q"
    using identify_cell_zone_nth(4,5)[OF assms(1,3)] by simp_all
  obtain st' new where l: "reproject_loop t v (reproject_indicies v) st = Inr st'"
    "map_of (files st') ?q \<noteq> None" "calls st' = calls st @ new"
    "?q \<notin> set (concat (map touched new))"
    using reproject_loop_keeps[OF reproject_indicies_ready[OF assms(1,2)]
        reproject_indicies_other_path[OF assms(1,3,4)] q(1), of t]
    by blast
  have "?q \<in> set (get_DEM_paths (files st'))"
    using l(2) q(2) by (simp add: get_DEM_paths_iff)
  with a l show ?thesis by blast
qed

theorem matching_tile_left_alone_witness:
  "identify_cell (files \<lparr>files = scenario_files, calls = []\<rparr>) = Inr scenario_variables \<and>
   list_all plain_path (DEM_paths scenario_variables) \<and>
   1 < length (DEM_paths scenario_variables) \<and>
   utm_zones scenario_variables ! 1 = predominant scenario_variables \<and>
   1 \<notin> set (reproject_indicies scenario_variables) \<and>
   (\<exists>st' new. reproject_loop working_tools scenario_variables
                  (reproject_indicies scenario_variables)
                  \<lparr>files = scenario_files, calls = []\<rparr> = Inr st' \<and>
      calls st' = calls \<lparr>files = scenario_files, calls = []\<rparr> @ new \<and>
      DEM_paths scenario_variables ! 1 \<notin> set (concat (map touched new)) \<and>
      DEM_paths scenario_variables ! 1 \<in> set (get_DEM_paths (files st')))"
proof -
  have h1: "identify_cell (files \<lparr>files = scenario_files, calls = []\<rparr>) = Inr scenario_variables"
    by (simp add: scenario_identify)
  have h3: "1 < length (DEM_paths scenario_variables)"
    by (simp add: scenario_variables_def)
  have h4: "utm_zones scenario_variables ! 1 = predominant scenario_variables"
    by (simp add: scenario_variables_def)
  show ?thesis
    using h1 scenario_plain h3 h4
      matching_tile_left_alone[OF h1 scenario_plain h3 h4, of working_tools]
    by simp
qed

text \<open>
  C6. For a tile that is to be reprojected, whose file exists and on which
  \<^verbatim>\<open>gdalwarp\<close> succeeds, one round of the loop ends with the tile's file
  \<^verbatim>\<open>DEMs/name\<close> gone and the file \<^verbatim>\<open>DEMs/rname\<close> present in the predominant zone.
\<close>

theorem reproject_tile_replaces:
  assumes "identify_cell fs = Inr v"
    and "list_all plain_path (DEM_paths v)"
    and "k \<in> set (reproject_indicies v)"
    and "map_of (files st) (DEM_paths v ! k) \<noteq> None"
    and "gdalwarp_ok t (DEM_paths v ! k)"
  shows "\<exists>st' n. reproject_tile t v k st = Inr st' \<and> DEM_paths v ! k = ''DEMs/'' @ n \<and>
           map_of (files st') (DEM_paths v ! k) = None \<and>
           map_of (files st') (''DEMs/r'' @ n) =
             Some \<lparr>utm_type = ''EPSG'', utm_zone = predominant v\<rparr>"
proof -
  have r: "tile_ready v k"
    using reproject_indicies_ready[OF assms(1,2)] assms(3) by blast
  obtain st' n where s: "reproject_tile t v k st = Inr st'" "DEM_paths v ! k = ''DEMs/'' @ n"
    "map_of (files st') =
       (if map_of (files st) (DEM_paths v ! k) \<noteq> None \<and> gdalwarp_ok t (DEM_paths v ! k)
        then (map_of (files st))(''DEMs/r'' @ n \<mapsto>
                \<lparr>utm_type = ''EPSG'', utm_zone = predominant v\<rparr>)
        else map_of (files st))(DEM_paths v ! k := None)"
    using reproject_tile_ready[OF r, of t st] by blast
  have "''DEMs/r'' @ n \<noteq> DEM_paths v ! k"
    using s(2) by simp
  then have "map_of (files st') (''DEMs/r'' @ n) =
             Some \<lparr>utm_type = ''EPSG'', utm_zone = predominant v\<rparr>"
    using assms(4,5) by (simp add: s(3))
  moreover have "map_of (files st') (DEM_paths v ! k) = None" by (simp add: s(3))
  ultimately show ?thesis using s(1,2) by blast
qed

theorem reproject_tile_replaces_witness:
  "identify_cell scenario_files = Inr scenario_variables \<and>
   list_all plain_path (DEM_paths scenario_variables) \<and>
   0 \<in> set (reproject_indicies scenario_variables) \<and>
   map_of (files \<lparr>files = scenario_files, calls = []\<rparr>) (DEM_paths scenario_variables ! 0) \<noteq> None \<and>
   gdalwarp_ok working_tools (DEM_paths scenario_variables ! 0) \<and>
   (\<exists>st' n. reproject_tile working_tools scenario_variables 0
               \<lparr>files = scenario_files, calls = []\<rparr> = Inr st' \<and>
      DEM_paths scenario_variables ! 0 = ''DEMs/'' @ n \<and>
      map_of (files st') (DEM_paths scenario_variables ! 0) = None \<and>
      map_of (files st') (''DEMs/r'' @ n) =
        Some \<lparr>utm_type = ''EPSG'', utm_zone = predominant scenario_variables\<rparr>)"
proof -
  have h3: "0 \<in> set (reproject_indicies scenario_variables)"
    by code_simp
  have h4: "map_of (files \<lparr>files = scenario_files, calls = []\<rparr>)
              (DEM_paths scenario_variables ! 0) \<noteq> None"
    by (simp add: scenario_files_def scenario_variables_def)
  have h5: "gdalwarp_ok working_tools (DEM_paths scenario_variables ! 0)"
    by (simp add: working_tools_def)
  show ?thesis
    using scenario_identify scenario_plain h3 h4 h5
      reproject_tile_replaces[OF scenario_identify scenario_plain h3 h4 h5]
    by simp
qed

text \<open>
  C2 as stated fails: with a \<^verbatim>\<open>gdalwarp\<close> that fails, the pass over the three tiles
  raises nothing, the tile \<^verbatim>\<open>DEMs/t1.tif\<close> is removed all the same, and no file
  \<^verbatim>\<open>DEMs/rt1.tif\<close> takes its place.
\<close>

theorem failed_gdalwarp_tile_removed:
  "\<not> gdalwarp_ok failing_tools ''DEMs/t1.tif'' \<and>
   map_of scenario_files ''DEMs/t1.tif'' =
     Some \<lparr>utm_type = ''EPSG'', utm_zone = ''32644''\<rparr> \<and>
   reproject_pass failing_tools \<lparr>files = scenario_files, calls = []\<rparr> =
     Inr \<lparr>files = tl scenario_files, calls = warp_calls\<rparr> \<and>
   map_of (tl scenario_files) ''DEMs/t1.tif'' = None \<and>
   map_of (tl scenario_files) ''DEMs/rt1.tif'' = None"
  by code_simp

text \<open>
  C2, amended. The notebook does not look at the exit status of a command. When
  \<^verbatim>\<open>gdalwarp\<close> fails on a tile that is to be reprojected, the round raises nothing,
  the tile's file is removed, no file is created and the other files stay as they are.
  When \<^verbatim>\<open>gdal_merge.py\<close> fails, the cell raises nothing and removes all tiles, and no
  file is created.
\<close>

theorem removal_is_unconditional:
  "(identify_cell fs = Inr v \<and> list_all plain_path (DEM_paths v) \<and>
    k \<in> set (reproject_indicies v) \<and> \<not> gdalwarp_ok t (DEM_paths v ! k) \<longrightarrow>
      (\<exists>st'. reproject_tile t v k st = Inr st' \<and>
         map_of (files st') = (map_of (files st))(DEM_paths v ! k := None))) \<and>
   (get_DEM_paths (files st) = p # ps \<and> list_all plain_path (p # ps) \<and>
    \<not> gdal_merge_ok t \<longrightarrow>
      (\<exists>st'. mosaic_cell t st = Inr st' \<and>
         map_of (files st') = (\<lambda>q. if q \<in> set (p # ps) then None else map_of (files st) q)))"
proof (intro conjI impI)
  assume a: "identify_cell fs = Inr v \<and> list_all plain_path (DEM_paths v) \<and>
    k \<in> set (reproject_indicies v) \<and> \<not> gdalwarp_ok t (DEM_paths v ! k)"
  then have r: "tile_ready v k"
    using reproject_indicies_ready[of fs v] by blast
  show "\<exists>st'. reproject_tile t v k st = Inr st' \<and>
         map_of (files st') = (map_of (files st))(DEM_paths v ! k := None)"
    using reproject_tile_ready[OF r, of t st] a by auto
next
  assume a: "get_DEM_paths (files st) = p # ps \<and> list_all plain_path (p # ps) \<and>
    \<not> gdal_merge_ok t"
  let ?st1 = "run t (Gdal_merge ''DEMs/DEM-Mosaic.tif'' (p # ps)) st"
  have "p \<in> set (get_DEM_paths (files st))" using a by simp
  then obtain r where "map_of (files st) p = Some r"
    using get_DEM_paths_exist[of p "files st"] by auto
  then have f1: "files ?st1 = files st"
    using a by (simp add: run_def)
  have "mosaic_cell t st = Inr (remove_loop t (p # ps) ?st1)"
    using a by (intro mosaic_cell_steps) simp_all
  moreover have "map_of (files (remove_loop t (p # ps) ?st1)) =
      (\<lambda>q. if q \<in> set (p # ps) then None else map_of (files st) q)"
    using a by (simp only: remove_loop_files_plain f1)
  ultimately show "\<exists>st'. mosaic_cell t st = Inr st' \<and>
         map_of (files st') = (\<lambda>q. if q \<in> set (p # ps) then None else map_of (files st) q)"
    by blast
qed

theorem removal_is_unconditional_witness:
  "identify_cell scenario_files = Inr scenario_variables \<and>
   list_all plain_path (DEM_paths scenario_variables) \<and>
   0 \<in> set (reproject_indicies scenario_variables) \<and>
   \<not> gdalwarp_ok failing_tools (DEM_paths scenario_variables ! 0) \<and>
   (\<exists>st'. reproject_tile failing_tools scenario_variables 0
             \<lparr>files = scenario_files, calls = []\<rparr> = Inr st' \<and>
      map_of (files st') =
        (map_of (files \<lparr>files = scenario_files, calls = []\<rparr>))
          (DEM_paths scenario_variables ! 0 := None)) \<and>
   get_DEM_paths (files \<lparr>files = one_zone_files, calls = []\<rparr>) =
     ''DEMs/t1.tif'' # [''DEMs/t2.tif'', ''DEMs/t3.tif''] \<and>
   list_all plain_path (''DEMs/t1.tif'' # [''DEMs/t2.tif'', ''DEMs/t3.tif'']) \<and>
   \<not> gdal_merge_ok failing_tools \<and>
   (\<exists>st'. mosaic_cell failing_tools \<lparr>files = one_zone_files, calls = []\<rparr> = Inr st' \<and>
      map_of (files st') =
        (\<lambda>q. if q \<in> set (''DEMs/t1.tif'' # [''DEMs/t2.tif'', ''DEMs/t3.tif'']) then None
             else map_of (files \<lparr>files = one_zone_files, calls = []\<rparr>) q))"
proof -
  have h3: "0 \<in> set (reproject_indicies scenario_variables)"
    by code_simp
  have h4: "\<not> gdalwarp_ok failing_tools (DEM_paths scenario_variables ! 0)"
    by (simp add: failing_tools_def)
  have h5: "get_DEM_paths (files \<lparr>files = one_zone_files, calls = []\<rparr>) =
     ''DEMs/t1.tif'' # [''DEMs/t2.tif'', ''DEMs/t3.tif'']"
    by code_simp
  have h6: "list_all plain_path (''DEMs/t1.tif'' # [''DEMs/t2.tif'', ''DEMs/t3.tif''])"
    by code_simp
  have h7: "\<not> gdal_merge_ok failing_tools"
    by (simp add: failing_tools_def)
  show ?thesis
    using scenario_identify scenario_plain h3 h4 h5 h6 h7
      removal_is_unconditional[where fs = scenario_files and v = scenario_variables
        and k = 0 and t = failing_tools
        and st = "\<lparr>files = scenario_files, calls = []\<rparr>"]
      removal_is_unconditional[where t = failing_tools
        and st = "\<lparr>files = one_zone_files, calls = []\<rparr>"
        and p = "''DEMs/t1.tif''" and ps = "[''DEMs/t2.tif'', ''DEMs/t3.tif'']"]
    by blast
qed

text \<open>
  C7 as stated fails: the collection of the tiles also finds a
  \<^verbatim>\<open>DEMs/DEM-Mosaic.tif\<close> that is in the folder. Run on the three tiles of one zone the
  cell leaves the mosaic alone in the folder; run again on that folder, with a
  \<^verbatim>\<open>gdal_merge.py\<close> that succeeds, the cell merges the mosaic into itself and then
  removes it as an input tile: no mosaic is left.
\<close>

theorem mosaic_cell_removes_leftover_mosaic:
  "gdal_merge_ok working_tools \<and>
   mosaic_cell working_tools \<lparr>files = one_zone_files, calls = []\<rparr> =
     Inr \<lparr>files = mosaic_files, calls = merge_calls\<rparr> \<and>
   get_DEM_paths mosaic_files = [''DEMs/DEM-Mosaic.tif''] \<and>
   mosaic_cell working_tools \<lparr>files = mosaic_files, calls = merge_calls\<rparr> =
     Inr \<lparr>files = [],
          calls = merge_calls @
            [Gdal_merge ''DEMs/DEM-Mosaic.tif'' [''DEMs/DEM-Mosaic.tif''],
             Os_remove ''DEMs/DEM-Mosaic.tif'']\<rparr>"
  by code_simp

text \<open>
  C7, amended. With at least one tile and a \<^verbatim>\<open>gdal_merge.py\<close> that succeeds, the cell
  makes one merge call, on all the tiles found, in the order found, with the output
  \<^verbatim>\<open>DEMs/DEM-Mosaic.tif\<close>, and after it only removals of tiles. When none of the tiles
  is \<^verbatim>\<open>DEMs/DEM-Mosaic.tif\<close> itself, the cell ends with the files it started from,
  less every tile, plus the one file \<^verbatim>\<open>DEMs/DEM-Mosaic.tif\<close>, which carries the
  coordinate system of the first tile (the common one, when the tiles share it). When
  \<^verbatim>\<open>DEMs/DEM-Mosaic.tif\<close> is among the tiles found, it is removed with them, and the
  cell ends with the files it started from, less every tile, and with no mosaic.
\<close>

theorem mosaic_cell_merges:
  assumes "get_DEM_paths (files st) = p # ps"
    and "list_all plain_path (p # ps)"
    and "gdal_merge_ok t"
  shows "\<exists>st' rs. mosaic_cell t st = Inr st' \<and>
           calls st' = calls st @ Gdal_merge ''DEMs/DEM-Mosaic.tif'' (p # ps) # rs \<and>
           set rs \<subseteq> Os_remove ` set (p # ps) \<and>
           (''DEMs/DEM-Mosaic.tif'' \<notin> set (p # ps) \<longrightarrow>
              dom (map_of (files st')) =
                dom (map_of (files st)) - set (p # ps) \<union> {''DEMs/DEM-Mosaic.tif''} \<and>
              map_of (files st') ''DEMs/DEM-Mosaic.tif'' = map_of (files st) p) \<and>
           (''DEMs/DEM-Mosaic.tif'' \<in> set (p # ps) \<longrightarrow>
              dom (map_of (files st')) = dom (map_of (files st)) - set (p # ps))"
proof -
  let ?out = "''DEMs/DEM-Mosaic.tif''"
  have ex: "\<forall>q \<in> set (p # ps). map_of (files st) q \<noteq> None"
    using assms(1) get_DEM_paths_exist[of _ "files st"] by simp
  obtain r where r: "map_of (files st) p = Some r" using ex by auto
  let ?st1 = "run t (Gdal_merge ?out (p # ps)) st"
  let ?st' = "remove_loop t (p # ps) ?st1"
  have f1: "map_of (files ?st1) = (map_of (files st))(?out \<mapsto> r)"
    using assms(3) ex r by (simp add: run_def AList.update_conv' list_all_iff)
  have c1: "calls ?st1 = calls st @ [Gdal_merge ?out (p # ps)]"
    by (simp add: run_def)
  have res: "mosaic_cell t st = Inr ?st'"
    by (rule mosaic_cell_steps[OF assms(1,2)])
  obtain rs where rs: "calls ?st' = calls ?st1 @ rs" "set rs \<subseteq> Os_remove ` set (p # ps)"
    using remove_loop_calls[of t "p # ps" ?st1] by blast
  have c: "calls ?st' = calls st @ Gdal_merge ?out (p # ps) # rs"
    using rs(1) c1 by (simp del: remove_loop.simps)
  have m: "map_of (files ?st') =
     (\<lambda>q. if q \<in> set (p # ps) then None else ((map_of (files st))(?out \<mapsto> r)) q)"
    by (simp only: remove_loop_files_plain[OF assms(2)] f1)
  have d: "?out \<notin> set (p # ps) \<longrightarrow>
             dom (map_of (files ?st')) = dom (map_of (files st)) - set (p # ps) \<union> {?out} \<and>
             map_of (files ?st') ?out = map_of (files st) p"
    unfolding m by (auto simp: dom_def r split: if_splits)
  have o: "?out \<in> set (p # ps) \<longrightarrow>
             dom (map_of (files ?st')) = dom (map_of (files st)) - set (p # ps)"
    unfolding m by (auto simp: dom_def split: if_splits)
  have "mosaic_cell t st = Inr ?st' \<and>
           calls ?st' = calls st @ Gdal_merge ?out (p # ps) # rs \<and>
           set rs \<subseteq> Os_remove ` set (p # ps) \<and>
           (?out \<notin> set (p # ps) \<longrightarrow>
              dom (map_of (files ?st')) = dom (map_of (files st)) - set (p # ps) \<union> {?out} \<and>
              map_of (files ?st') ?out = map_of (files st) p) \<and>
           (?out \<in> set (p # ps) \<longrightarrow>
              dom (map_of (files ?st')) = dom (map_of (files st)) - set (p # ps))"
    using res c rs(2) d o by (intro conjI)
  then show ?thesis by (intro exI)
qed

theorem mosaic_cell_merges_witness:
  "get_DEM_paths (files \<lparr>files = one_zone_files, calls = []\<rparr>) =
     ''DEMs/t1.tif'' # [''DEMs/t2.tif'', ''DEMs/t3.tif''] \<and>
   list_all plain_path (''DEMs/t1.tif'' # [''DEMs/t2.tif'', ''DEMs/t3.tif'']) \<and>
   gdal_merge_ok working_tools \<and>
   ''DEMs/DEM-Mosaic.tif'' \<notin> set (''DEMs/t1.tif'' # [''DEMs/t2.tif'', ''DEMs/t3.tif'']) \<and>
   (\<exists>st' rs. mosaic_cell working_tools \<lparr>files = one_zone_files, calls = []\<rparr> = Inr st' \<and>
      calls st' = calls \<lparr>files = one_zone_files, calls = []\<rparr> @
                    Gdal_merge ''DEMs/DEM-Mosaic.tif''
                      (''DEMs/t1.tif'' # [''DEMs/t2.tif'', ''DEMs/t3.tif'']) # rs \<and>
      dom (map_of (files st')) = {''DEMs/DEM-Mosaic.tif''} \<and>
      map_of (files st') ''DEMs/DEM-Mosaic.tif'' =
        Some \<lparr>utm_type = ''EPSG'', utm_zone = ''32645''\<rparr>) \<and>
   get_DEM_paths (files \<lparr>files = mosaic_files, calls = []\<rparr>) = ''DEMs/DEM-Mosaic.tif'' # [] \<and>
   list_all plain_path (''DEMs/DEM-Mosaic.tif'' # []) \<and>
   ''DEMs/DEM-Mosaic.tif'' \<in> set (''DEMs/DEM-Mosaic.tif'' # []) \<and>
   (\<exists>st'. mosaic_cell working_tools \<lparr>files = mosaic_files, calls = []\<rparr> = Inr st' \<and>
      dom (map_of (files st')) = {})"
proof -
  have h1: "get_DEM_paths (files \<lparr>files = one_zone_files, calls = []\<rparr>) =
     ''DEMs/t1.tif'' # [''DEMs/t2.tif'', ''DEMs/t3.tif'']"
    by code_simp
  have h2: "list_all plain_path (''DEMs/t1.tif'' # [''DEMs/t2.tif'', ''DEMs/t3.tif''])"
    by code_simp
  have h3: "gdal_merge_ok working_tools"
    by (simp add: working_tools_def)
  have h4: "''DEMs/DEM-Mosaic.tif'' \<notin> set (''DEMs/t1.tif'' # [''DEMs/t2.tif'', ''DEMs/t3.tif''])"
    by simp
  have d: "dom (map_of (files \<lparr>files = one_zone_files, calls = []\<rparr>))
             - set (''DEMs/t1.tif'' # [''DEMs/t2.tif'', ''DEMs/t3.tif''])
             \<union> {''DEMs/DEM-Mosaic.tif''} = {''DEMs/DEM-Mosaic.tif''}"
    by (auto simp: one_zone_files_def)
  have m: "map_of (files \<lparr>files = one_zone_files, calls = []\<rparr>) ''DEMs/t1.tif'' =
             Some \<lparr>utm_type = ''EPSG'', utm_zone = ''32645''\<rparr>"
    by (simp add: one_zone_files_def)
  have g1: "get_DEM_paths (files \<lparr>files = mosaic_files, calls = []\<rparr>) =
              ''DEMs/DEM-Mosaic.tif'' # []"
    by code_simp
  have g2: "list_all plain_path (''DEMs/DEM-Mosaic.tif'' # [])"
    by code_simp
  have g4: "''DEMs/DEM-Mosaic.tif'' \<in> set (''DEMs/DEM-Mosaic.tif'' # [])"
    by simp
  have e: "dom (map_of (files \<lparr>files = mosaic_files, calls = []\<rparr>))
             - set (''DEMs/DEM-Mosaic.tif'' # []) = {}"
    by (auto simp: mosaic_files_def)
  have a: "\<exists>st' rs. mosaic_cell working_tools \<lparr>files = one_zone_files, calls = []\<rparr> = Inr st' \<and>
      calls st' = calls \<lparr>files = one_zone_files, calls = []\<rparr> @
                    Gdal_merge ''DEMs/DEM-Mosaic.tif''
                      (''DEMs/t1.tif'' # [''DEMs/t2.tif'', ''DEMs/t3.tif'']) # rs \<and>
      dom (map_of (files st')) = {''DEMs/DEM-Mosaic.tif''} \<and>
      map_of (files st') ''DEMs/DEM-Mosaic.tif'' =
        Some \<lparr>utm_type = ''EPSG'', utm_zone = ''32645''\<rparr>"
  proof -
    from mosaic_cell_merges[OF h1 h2 h3] obtain st' rs where
      s: "mosaic_cell working_tools \<lparr>files = one_zone_files, calls = []\<rparr> = Inr st'"
        "calls st' = calls \<lparr>files = one_zone_files, calls = []\<rparr> @
                    Gdal_merge ''DEMs/DEM-Mosaic.tif''
                      (''DEMs/t1.tif'' # [''DEMs/t2.tif'', ''DEMs/t3.tif'']) # rs"
        "''DEMs/DEM-Mosaic.tif'' \<notin> set (''DEMs/t1.tif'' # [''DEMs/t2.tif'', ''DEMs/t3.tif'']) \<longrightarrow>
           dom (map_of (files st')) =
             dom (map_of (files \<lparr>files = one_zone_files, calls = []\<rparr>))
               - set (''DEMs/t1.tif'' # [''DEMs/t2.tif'', ''DEMs/t3.tif''])
               \<union> {''DEMs/DEM-Mosaic.tif''} \<and>
           map_of (files st') ''DEMs/DEM-Mosaic.tif'' =
             map_of (files \<lparr>files = one_zone_files, calls = []\<rparr>) ''DEMs/t1.tif''"
      by (elim exE conjE) (rule that)
    note t = mp[OF s(3) h4, unfolded d m]
    have "mosaic_cell working_tools \<lparr>files = one_zone_files, calls = []\<rparr> = Inr st' \<and>
      calls st' = calls \<lparr>files = one_zone_files, calls = []\<rparr> @
                    Gdal_merge ''DEMs/DEM-Mosaic.tif''
                      (''DEMs/t1.tif'' # [''DEMs/t2.tif'', ''DEMs/t3.tif'']) # rs \<and>
      dom (map_of (files st')) = {''DEMs/DEM-Mosaic.tif''} \<and>
      map_of (files st') ''DEMs/DEM-Mosaic.tif'' =
        Some \<lparr>utm_type = ''EPSG'', utm_zone = ''32645''\<rparr>"
      using s(1) s(2) t by (intro conjI) (elim conjE, assumption)+
    then show ?thesis by (intro exI)
  qed
  have b: "\<exists>st'. mosaic_cell working_tools \<lparr>files = mosaic_files, calls = []\<rparr> = Inr st' \<and>
      dom (map_of (files st')) = {}"
  proof -
    from mosaic_cell_merges[OF g1 g2 h3] obtain st' rs where
      s: "mosaic_cell working_tools \<lparr>files = mosaic_files, calls = []\<rparr> = Inr st'"
        "''DEMs/DEM-Mosaic.tif'' \<in> set (''DEMs/DEM-Mosaic.tif'' # []) \<longrightarrow>
           dom (map_of (files st')) =
             dom (map_of (files \<lparr>files = mosaic_files, calls = []\<rparr>))
               - set (''DEMs/DEM-Mosaic.tif'' # [])"
      by (elim exE conjE) (rule that)
    note t = mp[OF s(2) g4, unfolded e]
    have "mosaic_cell working_tools \<lparr>files = mosaic_files, calls = []\<rparr> = Inr st' \<and>
      dom (map_of (files st')) = {}"
      using s(1) t by (intro conjI)
    then show ?thesis by (intro exI)
  qed
  show ?thesis
    using h1 h2 h3 h4 g1 g2 g4 a b by (intro conjI)
qed

text \<open>
  C8. When the pass has completed once, the tiles then found all carry the zone that the
  pass selected; run again, with whatever tools, the pass selects the same zone, finds
  no tile to reproject, makes no call and returns the state as it is.
\<close>

theorem reproject_pass_idempotent:
  assumes "reproject_pass t st = Inr st'"
    and "list_all plain_path (get_DEM_paths (files st))"
  shows "\<exists>v v'. identify_cell (files st) = Inr v \<and> identify_cell (files st') = Inr v' \<and>
           predominant v' = predominant v \<and>
           list_all (\<lambda>z. z = predominant v) (utm_zones v') \<and>
           reproject_indicies v' = [] \<and>
           reproject_pass t2 st' = Inr st'"
proof -
  obtain v where v: "identify_cell (files st) = Inr v"
    and l: "reproject_loop t v (reproject_indicies v) st = Inr st'"
    using assms(1) by (auto simp: reproject_pass_def split: sum.splits)
  note i = identify_cell_Inr[OF v]
  have pl: "list_all plain_path (DEM_paths v)" using assms(2) by (simp add: i(1))
  note rdy = reproject_indicies_ready[OF v pl]
  have inv: "\<forall>p r. map_of (files st) p = Some r \<longrightarrow> matches_DEM_pth p \<longrightarrow>
           utm_zone r = predominant v \<or> p \<in> (\<lambda>k. DEM_paths v ! k) ` set (reproject_indicies v)"
  proof (intro allI impI)
    fix p r assume a: "map_of (files st) p = Some r" "matches_DEM_pth p"
    then have "p \<in> set (DEM_paths v)" by (simp add: i(1) get_DEM_paths_iff)
    then obtain j where j: "j < length (DEM_paths v)" "DEM_paths v ! j = p"
      by (auto simp: in_set_conv_nth)
    have z: "utm_zones v ! j = utm_zone r"
      using identify_cell_zone_nth(1)[OF v j(1)] a(1) j(2) by simp
    show "utm_zone r = predominant v \<or> p \<in> (\<lambda>k. DEM_paths v ! k) ` set (reproject_indicies v)"
    proof (cases "utm_zone r = predominant v")
      case True then show ?thesis by simp
    next
      case False
      then have "j \<in> set (reproject_indicies v)"
        using z j(1) identify_cell_zone_nth(2)[OF v j(1)] by (simp add: reproject_indicies_iff)
      then show ?thesis using j(2) by blast
    qed
  qed
  have zones': "\<forall>p r. map_of (files st') p = Some r \<longrightarrow> matches_DEM_pth p \<longrightarrow>
              utm_zone r = predominant v"
    using reproject_loop_zones[OF rdy inv, of t] l by simp
  obtain m where m: "m < length (DEM_paths v)" "utm_zones v ! m = predominant v"
    using identify_cell_nonempty(2)[OF v] i(1,2) by (auto simp: in_set_conv_nth)
  let ?q = "DEM_paths v ! m"
  have q: "map_of (files st) ?q \<noteq> None" "matches_DEM_pth ?q"
    using identify_cell_zone_nth(4,5)[OF v m(1)] by simp_all
  have "map_of (files st') ?q \<noteq> None"
    using reproject_loop_keeps[OF rdy reproject_indicies_other_path[OF v m] q(1), of t] l
    by auto
  then have ne: "get_DEM_paths (files st') \<noteq> []"
    using q(2) get_DEM_paths_iff[of ?q "files st'"] by auto
  obtain v' where v': "identify_cell (files st') = Inr v'"
    using identify_cell_succeeds[OF ne] by blast
  note i' = identify_cell_Inr[OF v']
  have all: "\<forall>z \<in> set (utm_zones v'). z = predominant v"
  proof
    fix z assume "z \<in> set (utm_zones v')"
    then obtain p where p: "p \<in> set (get_DEM_paths (files st'))"
      "z = utm_zone (the (map_of (files st') p))"
      by (auto simp: i'(2))
    then obtain r where "map_of (files st') p = Some r" "matches_DEM_pth p"
      by (auto simp: get_DEM_paths_iff)
    then show "z = predominant v" using zones' p(2) by auto
  qed
  have pv: "predominant v' = predominant v"
    using identify_cell_nonempty(2)[OF v'] all by blast
  have ri: "reproject_indicies v' = []"
    using all pv by (auto simp: reproject_indicies_def filter_empty_conv)
  have "reproject_pass t2 st' = Inr st'"
    by (simp add: reproject_pass_def v' ri)
  with v v' pv all ri show ?thesis by (auto simp: list_all_iff)
qed

theorem reproject_pass_idempotent_witness:
  "reproject_pass working_tools \<lparr>files = scenario_files, calls = []\<rparr> =
     Inr \<lparr>files = reprojected_files, calls = warp_calls\<rparr> \<and>
   list_all plain_path (get_DEM_paths (files \<lparr>files = scenario_files, calls = []\<rparr>)) \<and>
   reproject_pass working_tools \<lparr>files = reprojected_files, calls = warp_calls\<rparr> =
     Inr \<lparr>files = reprojected_files, calls = warp_calls\<rparr>"
proof -
  have h1: "reproject_pass working_tools \<lparr>files = scenario_files, calls = []\<rparr> =
     Inr \<lparr>files = reprojected_files, calls = warp_calls\<rparr>"
    by code_simp
  have h2: "list_all plain_path (get_DEM_paths (files \<lparr>files = scenario_files, calls = []\<rparr>))"
    by code_simp
  show ?thesis
    using h1 h2 reproject_pass_idempotent[OF h1 h2, of working_tools] by blast
qed

text \<open>
  C10. \<^verbatim>\<open>get_DEM_dates\<close> does not use its parameter: whatever list it is called
  with, the result is the one computed from the global \<^verbatim>\<open>tiff_paths\<close>.
\<close>

theorem get_DEM_dates_ignores_paths:
  "get_DEM_dates tiff_paths p1 = get_DEM_dates tiff_paths p2"
  by (simp add: get_DEM_dates_def)

end
